theory Spec2Isabelle
  imports Complex_Main
begin

section \<open>Text\<close>

text \<open>
  The bot works on Python \<^verbatim>\<open>str\<close> values. They are modelled as \<^typ>\<open>string\<close>: a list of
  characters, each character standing for the code point of the same number, so the model
  covers the texts whose code points are below 256. On that range the tables below are
  the ones Python uses: \<^verbatim>\<open>str.isspace\<close> (also the class \<^verbatim>\<open>\s\<close> and what \<^verbatim>\<open>strip()\<close>
  removes), the decimal digits (\<^verbatim>\<open>\d\<close>, \<^verbatim>\<open>int()\<close>), the word characters (\<^verbatim>\<open>\w\<close>, behind
  \<^verbatim>\<open>\b\<close>) and \<^verbatim>\<open>str.lower\<close>.
\<close>

abbreviation NL :: char where "NL \<equiv> CHR 0x0A"
abbreviation CR :: char where "CR \<equiv> CHR 0x0D"

definition PICT :: char where
  \<comment> \<open>Stands for one code point of a pictograph in a literal of the source (U+1F4CB,
      U+274C, U+2B05, U+FE0F, ...): none fits in 8 bits. Like them it is one character
      long and is neither white space, a digit, a letter nor a line terminator.\<close>
  "PICT = CHR 0x1A"

definition is_space :: "char \<Rightarrow> bool" where
  "is_space c = (c \<in> set [CHR 0x09, CHR 0x0A, CHR 0x0B, CHR 0x0C, CHR 0x0D, CHR 0x1C, CHR 0x1D,
     CHR 0x1E, CHR 0x1F, CHR 0x20, CHR 0x85, CHR 0xA0])"

definition is_decimal :: "char \<Rightarrow> bool" where
  "is_decimal c = (c \<in> set ''0123456789'')"

definition is_word :: "char \<Rightarrow> bool" where
  "is_word c = (let n = (of_char c :: nat) in
     (48 \<le> n \<and> n \<le> 57) \<or> (65 \<le> n \<and> n \<le> 90) \<or> n = 95 \<or> (97 \<le> n \<and> n \<le> 122) \<or>
     n = 170 \<or> n = 178 \<or> n = 179 \<or> n = 181 \<or> n = 185 \<or> n = 186 \<or> (188 \<le> n \<and> n \<le> 190) \<or>
     (192 \<le> n \<and> n \<le> 214) \<or> (216 \<le> n \<and> n \<le> 246) \<or> (248 \<le> n \<and> n \<le> 255))"

definition is_upper :: "char \<Rightarrow> bool" where
  "is_upper c = (let n = (of_char c :: nat) in
     (65 \<le> n \<and> n \<le> 90) \<or> (192 \<le> n \<and> n \<le> 214) \<or> (216 \<le> n \<and> n \<le> 222))"

definition lower_char :: "char \<Rightarrow> char" where
  \<comment> \<open>An upper-case letter below 256 has its lower-case form 32 above it: bit 5 is set.\<close>
  "lower_char c = (if is_upper c
     then (case c of Char b0 b1 b2 b3 b4 b5 b6 b7 \<Rightarrow> Char b0 b1 b2 b3 b4 True b6 b7) else c)"

definition lower :: "string \<Rightarrow> string" where
  "lower s = map lower_char s"

definition lstrip :: "string \<Rightarrow> string" where
  "lstrip s = dropWhile is_space s"

definition rstrip :: "string \<Rightarrow> string" where
  "rstrip s = rev (dropWhile is_space (rev s))"

definition strip :: "string \<Rightarrow> string" where
  "strip s = rstrip (lstrip s)"

definition rstrip_chars :: "string \<Rightarrow> string \<Rightarrow> string" where
  \<comment> \<open>\<^verbatim>\<open>s.rstrip(chars)\<close>\<close>
  "rstrip_chars s chars = rev (dropWhile (\<lambda>c. c \<in> set chars) (rev s))"

definition startswith :: "string \<Rightarrow> string \<Rightarrow> bool" where
  "startswith s p = (take (length p) s = p)"

fun contains :: "string \<Rightarrow> string \<Rightarrow> bool" where
  \<comment> \<open>\<^verbatim>\<open>sub in s\<close>\<close>
  "contains [] sub = (sub = [])"
| "contains (c # cs) sub = (startswith (c # cs) sub \<or> contains cs sub)"

fun join :: "string \<Rightarrow> string list \<Rightarrow> string" where
  \<comment> \<open>\<^verbatim>\<open>sep.join(xs)\<close>\<close>
  "join sep [] = []"
| "join sep [x] = x"
| "join sep (x # y # ys) = x @ sep @ join sep (y # ys)"

fun rfind :: "string \<Rightarrow> nat \<Rightarrow> nat \<Rightarrow> nat option" where
  \<comment> \<open>\<^verbatim>\<open>text.rfind("\n", start, end)\<close>: the highest index in \<open>[start, end)\<close> holding a line
      terminator; \<open>None\<close> is Python's -1.\<close>
  "rfind txt start 0 = None"
| "rfind txt start (Suc e) =
     (if e < start then None
      else if e < length txt \<and> txt ! e = NL then Some e
      else rfind txt start e)"

definition digit_val :: "char \<Rightarrow> nat" where
  "digit_val c = of_char c - 48"

definition digit_char :: "nat \<Rightarrow> char" where
  "digit_char d = ''0123456789'' ! d"

definition py_int :: "string \<Rightarrow> nat option" where
  \<comment> \<open>\<^verbatim>\<open>int(n)\<close> where the source calls it: on a stripped string of two characters that
      starts with a zero. It raises (\<open>None\<close>) unless both are decimal digits.\<close>
  "py_int n = (if n \<noteq> [] \<and> list_all is_decimal n
     then Some (foldl (\<lambda>a c. 10 * a + digit_val c) 0 n) else None)"

fun py_str :: "nat \<Rightarrow> string" where
  \<comment> \<open>\<^verbatim>\<open>str(v)\<close> of a natural number\<close>
  "py_str n = (if n < 10 then [digit_char n] else py_str (n div 10) @ [digit_char (n mod 10)])"

section \<open>The patterns\<close>

text \<open>
  Each compiled pattern of the source is a function that decides the same matches.
  Greedy repetition is written out with the backtracking that can still succeed.
\<close>

definition dot_plus_end :: "string \<Rightarrow> string option" where
  \<comment> \<open>\<^verbatim>\<open>(.+)$\<close> at the head of \<open>s\<close>: the dot stops at a line terminator, and \<^verbatim>\<open>$\<close> holds
      at the end or before one last line terminator.\<close>
  "dot_plus_end s =
     (let g = takeWhile (\<lambda>c. c \<noteq> NL) s; r = dropWhile (\<lambda>c. c \<noteq> NL) s
      in if g \<noteq> [] \<and> (r = [] \<or> r = [NL]) then Some g else None)"

fun ws_label :: "nat \<Rightarrow> string \<Rightarrow> string option" where
  \<comment> \<open>\<^verbatim>\<open>\s*(.+)$\<close>: the white space first takes \<open>k\<close> characters, then gives them back one
      at a time.\<close>
  "ws_label 0 r = dot_plus_end r"
| "ws_label (Suc k) r =
     (case dot_plus_end (drop (Suc k) r) of Some g \<Rightarrow> Some g | None \<Rightarrow> ws_label k r)"

definition MENU_ITEM_RE :: "string \<Rightarrow> (string \<times> string) option" where
  \<comment> \<open>\<^verbatim>\<open>MENU_ITEM_RE.match(line)\<close> for \<^verbatim>\<open>^\s*(\d+)\.\s*(.+)$\<close>: the two groups.\<close>
  "MENU_ITEM_RE line =
     (let a = dropWhile is_space line; num = takeWhile is_decimal a; b = dropWhile is_decimal a
      in if num = [] then None
         else (case b of
                 [] \<Rightarrow> None
               | c # r \<Rightarrow>
                   if c \<noteq> CHR ''.'' then None
                   else (case ws_label (length (takeWhile is_space r)) r of
                           None \<Rightarrow> None
                         | Some g \<Rightarrow> Some (num, g))))"

definition ENDS_WITH_COLON_RE :: "string \<Rightarrow> bool" where
  \<comment> \<open>\<^verbatim>\<open>ENDS_WITH_COLON_RE.match(s)\<close> for \<^verbatim>\<open>.+:\s*$\<close>: the last character that is not
      white space is a colon, and before it stands at least one character and no line
      terminator.\<close>
  "ENDS_WITH_COLON_RE s =
     (case dropWhile is_space (rev s) of
        [] \<Rightarrow> False
      | c # u \<Rightarrow> c = CHR '':'' \<and> u \<noteq> [] \<and> NL \<notin> set u)"

definition ONLY_DIGITS_RE :: "string \<Rightarrow> bool" where
  \<comment> \<open>\<^verbatim>\<open>ONLY_DIGITS_RE.match(s)\<close> for \<^verbatim>\<open>^\d{1,8}$\<close>\<close>
  "ONLY_DIGITS_RE s =
     (let d = takeWhile is_decimal s; r = dropWhile is_decimal s
      in 1 \<le> length d \<and> length d \<le> 8 \<and> (r = [] \<or> r = [NL]))"

definition PROMPT_KEYWORDS :: "string list" where
  "PROMPT_KEYWORDS = [''pilih'', ''enter'', ''family'', ''kode'', ''otp'', ''nomor'', ''number'',
     ''pin'', ''masuk'']"

definition keyword_at :: "string \<Rightarrow> nat \<Rightarrow> string \<Rightarrow> bool" where
  \<comment> \<open>the keyword stands at index \<open>i\<close>, in any case, with a word boundary on each side\<close>
  "keyword_at s i kw =
     (i + length kw \<le> length s \<and> lower (take (length kw) (drop i s)) = kw \<and>
      (i = 0 \<or> \<not> is_word (s ! (i - 1))) \<and>
      (i + length kw = length s \<or> \<not> is_word (s ! (i + length kw))))"

definition PROMPT_KEYWORDS_RE :: "string \<Rightarrow> bool" where
  \<comment> \<open>\<^verbatim>\<open>PROMPT_KEYWORDS_RE.search(s)\<close> for
      \<^verbatim>\<open>(?i)\b(pilih|enter|family|kode|otp|nomor|number|pin|masuk)\b\<close>\<close>
  "PROMPT_KEYWORDS_RE s =
     list_ex (\<lambda>i. list_ex (\<lambda>kw. keyword_at s i kw) PROMPT_KEYWORDS) [0..<length s]"

section \<open>Configuration and session\<close>


definition TG_MAX :: nat where
  "TG_MAX = 3800"

record process =
  pid :: nat
  returncode :: "int option"

datatype stream_writer = StreamWriter

datatype task = Task nat

text \<open>
  The dataclass \<^verbatim>\<open>Session\<close>. Its two locks are left out: every function below runs from
  its first step to its last without another one in between. A timestamp is a reading
  of the event loop's clock, in seconds: the real number that the Python float stands for.
\<close>

record session =
  user_id :: int
  chat_id :: int
  proc :: "process option"
  stdin_writer :: "stream_writer option"
  partial :: string
  buffer_lines :: "string list"
  menu_items :: "(string \<times> string) list"
  last_output_time :: real
  awaiting_input :: bool
  last_prompt_time :: "real option"
  input_prompt_text :: "string option"
  reader_task :: "task option"
  flusher_task :: "task option"

definition Session :: "int \<Rightarrow> int \<Rightarrow> session" where
  \<comment> \<open>\<^verbatim>\<open>Session(user_id=u, chat_id=c)\<close>: every other field at its default\<close>
  "Session u c = \<lparr> user_id = u, chat_id = c, proc = None, stdin_writer = None, partial = [],
     buffer_lines = [], menu_items = [], last_output_time = 0, awaiting_input = False,
     last_prompt_time = None, input_prompt_text = None, reader_task = None,
     flusher_task = None \<rparr>"

definition is_running :: "session \<Rightarrow> bool" where
  "is_running s = (case proc s of None \<Rightarrow> False | Some p \<Rightarrow> returncode p = None)"

text \<open>
  What a function does to the world outside the session is the list of effects it
  returns, in order: a message handed to the notification sink, bytes written to the
  child's input, a signal to the child, a wait for its exit, a task cancelled, a sleep of
  so many seconds. The log file, a sink that nothing reads back, is left out.
\<close>

datatype markup = InlineKeyboardMarkup "(string \<times> string) list list"
  \<comment> \<open>rows of buttons, each a label and its callback data\<close>

datatype effect =
    SendMessage int string "markup option"
  | StdinWrite string
  | Terminate
  | WaitExit
  | Kill
  | Cancel task
  | Sleep real

fun sent_text :: "effect \<Rightarrow> string option" where
  "sent_text (SendMessage c t m) = Some t"
| "sent_text _ = None"

definition sent_texts :: "effect list \<Rightarrow> string list" where
  "sent_texts es = List.map_filter sent_text es"

definition stdin_writes :: "effect list \<Rightarrow> string list" where
  "stdin_writes es = List.map_filter (\<lambda>e. case e of StdinWrite b \<Rightarrow> Some b | _ \<Rightarrow> None) es"

section \<open>Menu codes and keyboards\<close>

definition normalize_choice :: "string \<Rightarrow> string" where
  "normalize_choice num =
    (let n = strip num in
     if n = ''00'' then ''00''
     else if length n = 2 \<and> startswith n ''0'' then
       (case py_int n of Some v \<Rightarrow> py_str v | None \<Rightarrow> n)
     else n)"

definition back_keyword :: "string \<Rightarrow> bool" where
  \<comment> \<open>the test of the first loop of \<^verbatim>\<open>find_back_num\<close> on a label\<close>
  "back_keyword label =
     (contains (lower label) ''kemb'' \<or> contains (lower label) ''kembali'' \<or>
      contains (lower label) ''utama'' \<or> contains (lower label) ''back'')"

fun find_back_label :: "(string \<times> string) list \<Rightarrow> string option" where
  \<comment> \<open>the first loop: \<open>Some\<close> is its \<^verbatim>\<open>return num\<close>, \<open>None\<close> its falling through\<close>
  "find_back_label [] = None"
| "find_back_label ((num, label) # rest) =
     (if back_keyword label then Some num else find_back_label rest)"

fun find_back_zero :: "(string \<times> string) list \<Rightarrow> string option" where
  \<comment> \<open>the second loop\<close>
  "find_back_zero [] = None"
| "find_back_zero ((num, label) # rest) =
     (if num = ''00'' \<or> num = ''0'' then Some num else find_back_zero rest)"

fun find_back_99 :: "(string \<times> string) list \<Rightarrow> string option" where
  \<comment> \<open>the third loop\<close>
  "find_back_99 [] = None"
| "find_back_99 ((num, label) # rest) =
     (if num = ''99'' then Some num else find_back_99 rest)"

definition find_back_num :: "(string \<times> string) list \<Rightarrow> string" where
  "find_back_num menu_items' =
     (case find_back_label menu_items' of
        Some num \<Rightarrow> num
      | None \<Rightarrow>
         (case find_back_zero menu_items' of
            Some num \<Rightarrow> num
          | None \<Rightarrow>
             (case find_back_99 menu_items' of
                Some num \<Rightarrow> num
              | None \<Rightarrow> (case menu_items' of [] \<Rightarrow> ''99'' | (num, label) # rest \<Rightarrow> num))))"

definition main_bot_kb :: markup where
  "main_bot_kb = InlineKeyboardMarkup
     [[(PICT # PICT # '' Jalankan Tools'', ''bot_run'')],
      [(PICT # PICT # '' Status Session'', ''bot_status'')],
      [(PICT # '' List Sessions'', ''bot_list''),
       (PICT # '' Stop'', ''bot_stop''),
       (PICT # PICT # '' Reset Session'', ''bot_reset'')]]"

definition menu_button :: "string \<times> string \<Rightarrow> string \<times> string" where
  \<comment> \<open>the body of the loop of \<^verbatim>\<open>menu_kb_from_items\<close>: the button's label and its
      callback data\<close>
  "menu_button item =
     (case item of (num, label) \<Rightarrow>
        let display_num = normalize_choice num;
            txt = display_num @ ''. '' @
                  (if length label \<le> 28 then label else take 25 label @ ''...'');
            cb = ''menu_choice|'' @ normalize_choice num
        in (txt, cb))"

fun rows_of_two :: "'a list \<Rightarrow> 'a list list" where
  \<comment> \<open>\<^verbatim>\<open>[buttons[i:i+2] for i in range(0, len(buttons), 2)]\<close>\<close>
  "rows_of_two [] = []"
| "rows_of_two [x] = [[x]]"
| "rows_of_two (x # y # rest) = [x, y] # rows_of_two rest"

definition menu_kb_from_items :: "(string \<times> string) list \<Rightarrow> markup" where
  "menu_kb_from_items items =
     (let buttons = map menu_button items;
          rows = rows_of_two buttons;
          back_num = find_back_num items
      in InlineKeyboardMarkup
           (rows @ [[(PICT # PICT # '' Menu Utama (Tools)'', ''menu_back|'' @ normalize_choice back_num),
                     (PICT # '' Batal'', ''menu_cancel'')]]))"

section \<open>Sending\<close>

text \<open>
  \<^verbatim>\<open>send_long_message\<close>. The sink can refuse a message; the sender ignores that and goes
  on. \<open>ok k\<close> tells whether the send of chunk number \<open>k\<close> goes through: only the keyboard
  of the next chunk depends on it.
\<close>

definition chunk_end :: "string \<Rightarrow> nat \<Rightarrow> nat" where
  \<comment> \<open>the value of \<^verbatim>\<open>end\<close> when the chunk is cut, for a chunk that starts at \<open>start\<close>\<close>
  "chunk_end txt start =
     (let l = length txt; end0 = min l (start + TG_MAX)
      in if end0 < l then
           (case rfind txt start end0 of
              Some nl \<Rightarrow> if nl > start then nl + 1 else end0
            | None \<Rightarrow> end0)
         else end0)"

lemma rfind_range: "rfind txt start e = Some nl \<Longrightarrow> start \<le> nl \<and> nl < e"
  by (induction e) (auto split: if_splits)

lemma chunk_end_gt: "start < length txt \<Longrightarrow> start < chunk_end txt start"
  by (auto simp: chunk_end_def Let_def TG_MAX_def split: option.splits dest: rfind_range)

lemma chunk_end_le: "chunk_end txt start \<le> length txt"
  by (auto simp: chunk_end_def Let_def split: option.splits dest: rfind_range)

function send_loop ::
  "int \<Rightarrow> string \<Rightarrow> markup option \<Rightarrow> (nat \<Rightarrow> bool) \<Rightarrow> nat \<Rightarrow> nat \<Rightarrow> bool \<Rightarrow> effect list" where
  \<comment> \<open>the \<^verbatim>\<open>while start < l\<close> loop; \<open>k\<close> counts the chunks sent so far\<close>
  "send_loop chat txt reply_markup ok k start first =
     (if start < length txt then
        let end = chunk_end txt start;
            chunk = take (end - start) (drop start txt);
            with_markup = (first \<and> reply_markup \<noteq> None)
        in SendMessage chat chunk (if with_markup then reply_markup else None) #
           send_loop chat txt reply_markup ok (Suc k) end
             (if with_markup \<and> ok k then False else first)
      else [])"
  by pat_completeness auto
termination
  by (relation "measure (\<lambda>(chat, txt, rm, ok, k, start, first). length txt - start)")
     (auto simp: chunk_end_gt chunk_end_le diff_less_mono2)

declare send_loop.simps [simp del]

definition send_long_message ::
  "int \<Rightarrow> string \<Rightarrow> markup option \<Rightarrow> (nat \<Rightarrow> bool) \<Rightarrow> effect list" where
  "send_long_message chat txt reply_markup ok =
     (if txt = [] then [] else send_loop chat txt reply_markup ok 0 0 True)"

section \<open>Classifying a line\<close>

text \<open>
  \<^verbatim>\<open>_process_line\<close>. \<open>now\<close> is the reading of the clock. The write of the line terminator
  is tried once; whether it or the drain after it raises changes nothing but the log.
\<close>

definition press_continue :: "string \<Rightarrow> bool" where
  "press_continue line =
     (let low = lower line
      in contains low ''press enter to continue'' \<or> contains low ''press any key to continue'')"

definition process_line :: "session \<Rightarrow> real \<Rightarrow> string \<Rightarrow> bool \<Rightarrow> session \<times> effect list" where
  "process_line s now line is_partial =
     (if line = [] then (s, [])
      else if press_continue line then
        (s, if stdin_writer s \<noteq> None then [StdinWrite [NL]] else [])
      else
        (case MENU_ITEM_RE line of
           Some (g1, g2) \<Rightarrow> (s\<lparr>menu_items := menu_items s @ [(strip g1, strip g2)]\<rparr>, [])
         | None \<Rightarrow>
            let s1 = s\<lparr>buffer_lines := buffer_lines s @ [line], last_output_time := now\<rparr>;
                is_prompt = (is_partial \<or> ENDS_WITH_COLON_RE line \<or> PROMPT_KEYWORDS_RE line \<or>
                             ONLY_DIGITS_RE line)
            in if is_prompt
               then (s1\<lparr>awaiting_input := True, last_prompt_time := Some now,
                        input_prompt_text := Some line\<rparr>, [])
               else (s1, [])))"

lemma partial_process_line: "partial (fst (process_line s now line is_partial)) = partial s"
  by (simp add: process_line_def Let_def split: option.splits prod.splits)

section \<open>The reader\<close>

text \<open>
  One turn of the loop of \<^verbatim>\<open>_reader_loop\<close>, for a chunk that is not empty. \<open>data\<close> is the
  chunk as text, after \<^verbatim>\<open>data.decode(errors="replace")\<close>, and \<open>now\<close> is the clock while the
  chunk is handled.
\<close>

function reader_lines :: "session \<Rightarrow> real \<Rightarrow> session \<times> effect list" where
  \<comment> \<open>\<^verbatim>\<open>while "\n" in session.partial\<close>\<close>
  "reader_lines s now =
     (if NL \<in> set (partial s) then
        let line = takeWhile (\<lambda>c. c \<noteq> NL) (partial s);
            rest = tl (dropWhile (\<lambda>c. c \<noteq> NL) (partial s));
            r1 = process_line (s\<lparr>partial := rest\<rparr>) now (rstrip_chars line [CR]) False;
            r2 = reader_lines (fst r1) now
        in (fst r2, snd r1 @ snd r2)
      else (s, []))"
  by pat_completeness auto
termination
proof (relation "measure (\<lambda>(s, now). length (partial s))")
  show "wf (measure (\<lambda>(s, now). length (partial s)))" by simp
next
  fix s :: session and now :: real and line rest r1
  assume nl: "NL \<in> set (partial s)"
    and rest: "rest = tl (dropWhile (\<lambda>c. c \<noteq> NL) (partial s))"
    and r1: "r1 = process_line (s\<lparr>partial := rest\<rparr>) now (rstrip_chars line [CR]) False"
  from nl have "dropWhile (\<lambda>c. c \<noteq> NL) (partial s) \<noteq> []" by simp
  then have "length (tl (dropWhile (\<lambda>c. c \<noteq> NL) (partial s))) <
      length (dropWhile (\<lambda>c. c \<noteq> NL) (partial s))"
    by (cases "dropWhile (\<lambda>c. c \<noteq> NL) (partial s)") auto
  also have "\<dots> \<le> length (partial s)" by (rule length_dropWhile_le)
  finally have "length rest < length (partial s)" by (simp add: rest)
  then show "((fst r1, now), (s, now)) \<in> measure (\<lambda>(s, now). length (partial s))"
    by (simp add: r1 partial_process_line)
qed

declare reader_lines.simps [simp del]

definition prompt_like :: "string \<Rightarrow> bool" where
  \<comment> \<open>the test the reader makes on the stripped fragment\<close>
  "prompt_like p = (ENDS_WITH_COLON_RE p \<or> PROMPT_KEYWORDS_RE p \<or> ONLY_DIGITS_RE p)"

definition reader_chunk :: "session \<Rightarrow> real \<Rightarrow> string \<Rightarrow> session \<times> effect list" where
  "reader_chunk s now data =
     (let s0 = s\<lparr>partial := partial s @ data, last_output_time := now\<rparr>;
          r1 = reader_lines s0 now;
          p = strip (partial (fst r1))
      in if p \<noteq> [] \<and> prompt_like p then
           let r2 = process_line (fst r1) now p True
           in ((fst r2)\<lparr>partial := []\<rparr>, snd r1 @ snd r2)
         else r1)"

section \<open>Flushing\<close>

definition menu_line :: "string \<times> string \<Rightarrow> string" where
  \<comment> \<open>\<^verbatim>\<open>f"{n}. {l}"\<close>\<close>
  "menu_line item = (case item of (n, l) \<Rightarrow> n @ ''. '' @ l)"

definition flush_buffer_and_menu :: "session \<Rightarrow> (nat \<Rightarrow> bool) \<Rightarrow> session \<times> effect list" where
  "flush_buffer_and_menu s ok =
     (if buffer_lines s = [] \<and> menu_items s = [] then (s, [])
      else
        let lines = buffer_lines s;
            menu = menu_items s;
            s' = s\<lparr>buffer_lines := [], menu_items := []\<rparr>;
            txt = strip (join [NL] lines)
        in if menu \<noteq> [] then
             let menu_text = join [NL] (map menu_line menu);
                 full = (if txt \<noteq> [] then txt @ [NL, NL, PICT] @ '' Menu:'' @ [NL] @ menu_text
                         else [PICT] @ '' Menu:'' @ [NL] @ menu_text);
                 kb = menu_kb_from_items menu
             in (s', send_long_message (chat_id s) full (Some kb) ok)
           else if txt \<noteq> [] then (s', send_long_message (chat_id s) txt None ok)
           else (s', []))"






section \<open>Stopping\<close>

definition cancel_tasks :: "session \<Rightarrow> session \<times> effect list" where
  "cancel_tasks s =
     (s\<lparr>reader_task := None, flusher_task := None, proc := None, stdin_writer := None\<rparr>,
      map Cancel (List.map_filter id [reader_task s, flusher_task s]))"

datatype child_exit =
    TerminateRaises  \<comment> \<open>\<^verbatim>\<open>terminate()\<close> raises\<close>
  | ExitsInGrace     \<comment> \<open>the child exits within the three seconds\<close>
  | KilledAfterGrace \<comment> \<open>the wait times out; the child is killed and awaited\<close>
  | KillRaises       \<comment> \<open>the wait times out and \<^verbatim>\<open>kill()\<close> raises\<close>

fun terminate_child :: "child_exit \<Rightarrow> effect list" where
  \<comment> \<open>the \<^verbatim>\<open>try\<close> block of \<^verbatim>\<open>stop_tool\<close>; whatever is raised in it is dropped\<close>
  "terminate_child TerminateRaises = [Terminate]"
| "terminate_child ExitsInGrace = [Terminate, WaitExit]"
| "terminate_child KilledAfterGrace = [Terminate, WaitExit, Kill, WaitExit]"
| "terminate_child KillRaises = [Terminate, WaitExit, Kill]"

definition stop_tool :: "session \<Rightarrow> child_exit \<Rightarrow> session \<times> effect list" where
  "stop_tool s child =
     (if \<not> is_running s then
        (s, [SendMessage (chat_id s) (PICT # PICT # '' Tidak ada tool berjalan.'') (Some main_bot_kb)])
      else
        let r = cancel_tasks s
        in (fst r, terminate_child child @ snd r @
              [SendMessage (chat_id s) (PICT # '' Tool dihentikan.'') (Some main_bot_kb)]))"

section \<open>Routing input\<close>

text \<open>
  \<open>io_ok\<close> tells whether the write to the child's input and the drain after it go through
  or one of them raises.
\<close>

definition input_sent :: "session \<Rightarrow> session" where
  \<comment> \<open>the three assignments after a write that went through\<close>
  "input_sent s = s\<lparr>awaiting_input := False, last_prompt_time := None, input_prompt_text := None\<rparr>"

definition text_handler :: "session \<Rightarrow> string \<Rightarrow> bool \<Rightarrow> session \<times> effect list" where
  "text_handler s message_text io_ok =
     (let txt = strip message_text in
      if is_running s \<and> stdin_writer s \<noteq> None then
        if io_ok then (input_sent s, [StdinWrite (txt @ [NL])])
        else (s, [StdinWrite (txt @ [NL]),
                  SendMessage (chat_id s) (PICT # '' Gagal mengirim input ke tool.'') (Some main_bot_kb)])
      else
        (s, [SendMessage (chat_id s)
               (PICT # '' Tool belum berjalan. Tekan '' @ [PICT, PICT] @ '' Jalankan Tools.'')
               (Some main_bot_kb)]))"

definition callback_menu_choice :: "session \<Rightarrow> string \<Rightarrow> bool \<Rightarrow> session \<times> effect list" where
  \<comment> \<open>the branch of \<^verbatim>\<open>callback_handler\<close> for data that starts with \<^verbatim>\<open>menu_choice|\<close>\<close>
  "callback_menu_choice s data io_ok =
     (let num = tl (dropWhile (\<lambda>c. c \<noteq> CHR ''|'') data) in
      if is_running s \<and> stdin_writer s \<noteq> None then
        if io_ok then (input_sent s, [StdinWrite (num @ [NL])])
        else (s, [StdinWrite (num @ [NL])])
      else (s, []))"

section \<open>Menu codes over all code points\<close>

text \<open>
  \<^verbatim>\<open>normalize_choice\<close> once more, for every Python string. A text is here the list of its
  code points, whatever they are, and the two tables of the Unicode database that the
  function consults, through \<^verbatim>\<open>strip()\<close> and \<^verbatim>\<open>int()\<close>, are written out as CPython 3.11
  has them (Unicode 14.0). A code of the menu is what \<^verbatim>\<open>\d+\<close> matched: decimal digits
  of any script.
\<close>

definition U_SPACE :: "nat list" where
  \<comment> \<open>the code points for which \<^verbatim>\<open>str.isspace\<close> holds: what \<^verbatim>\<open>strip()\<close> removes\<close>
  "U_SPACE = [0x09, 0x0A, 0x0B, 0x0C, 0x0D, 0x1C, 0x1D, 0x1E, 0x1F, 0x20, 0x85, 0xA0, 0x1680,
     0x2000, 0x2001, 0x2002, 0x2003, 0x2004, 0x2005, 0x2006, 0x2007, 0x2008, 0x2009, 0x200A,
     0x2028, 0x2029, 0x202F, 0x205F, 0x3000]"

definition U_ZEROS :: "nat list" where
  \<comment> \<open>The digit zero of every script: the ten decimal digits of a script are the code
      points from its zero on, in order.\<close>
  "U_ZEROS = [0x30, 0x660, 0x6f0, 0x7c0, 0x966, 0x9e6, 0xa66, 0xae6, 0xb66, 0xbe6,
     0xc66, 0xce6, 0xd66, 0xde6, 0xe50, 0xed0, 0xf20, 0x1040, 0x1090, 0x17e0,
     0x1810, 0x1946, 0x19d0, 0x1a80, 0x1a90, 0x1b50, 0x1bb0, 0x1c40, 0x1c50, 0xa620,
     0xa8d0, 0xa900, 0xa9d0, 0xa9f0, 0xaa50, 0xabf0, 0xff10, 0x104a0, 0x10d30, 0x11066,
     0x110f0, 0x11136, 0x111d0, 0x112f0, 0x11450, 0x114d0, 0x11650, 0x116c0, 0x11730, 0x118e0,
     0x11950, 0x11c50, 0x11d50, 0x11da0, 0x16a60, 0x16ac0, 0x16b50, 0x1d7ce, 0x1d7d8, 0x1d7e2,
     0x1d7ec, 0x1d7f6, 0x1e140, 0x1e2f0, 0x1e950, 0x1fbf0]"

definition u_isspace :: "nat \<Rightarrow> bool" where
  "u_isspace c = (c \<in> set U_SPACE)"

definition u_decimal :: "nat \<Rightarrow> nat option" where
  \<comment> \<open>the value of a decimal digit, \<open>None\<close> for any other code point\<close>
  "u_decimal c =
     (case find (\<lambda>z. z \<le> c \<and> c < z + 10) U_ZEROS of Some z \<Rightarrow> Some (c - z) | None \<Rightarrow> None)"

definition u_strip :: "nat list \<Rightarrow> nat list" where
  "u_strip s = rev (dropWhile u_isspace (rev (dropWhile u_isspace s)))"

definition u_int :: "nat list \<Rightarrow> nat option" where
  \<comment> \<open>\<^verbatim>\<open>int(n)\<close> where the source calls it: on a stripped string of two characters that
      starts with "0". It raises (\<open>None\<close>) unless both are decimal digits, of any script.\<close>
  "u_int n = (if n \<noteq> [] \<and> list_all (\<lambda>c. u_decimal c \<noteq> None) n
     then Some (foldl (\<lambda>a c. 10 * a + the (u_decimal c)) 0 n) else None)"

fun u_str :: "nat \<Rightarrow> nat list" where
  "u_str n = (if n < 10 then [48 + n] else u_str (n div 10) @ [48 + n mod 10])"

definition u_normalize_choice :: "nat list \<Rightarrow> nat list" where
  "u_normalize_choice num =
    (let n = u_strip num in
     if n = [48, 48] then [48, 48]
     else if length n = 2 \<and> take 1 n = [48] then
       (case u_int n of Some v \<Rightarrow> u_str v | None \<Rightarrow> n)
     else n)"

definition code_points :: "string \<Rightarrow> nat list" where
  \<comment> \<open>a text of the 8-bit model as a list of code points\<close>
  "code_points s = map of_char s"

section \<open>Reference definitions\<close>

text \<open>
  What the functions above are compared with: the words of the specification written as
  terms, and the sessions of the examples.
\<close>

definition leading_zero_codes :: "(string \<times> string) list" where
  \<comment> \<open>the codes the specification names, each with its single-digit form\<close>
  "leading_zero_codes = [(''01'', ''1''), (''02'', ''2''), (''03'', ''3''), (''04'', ''4''),
     (''05'', ''5''), (''06'', ''6''), (''07'', ''7''), (''08'', ''8''), (''09'', ''9'')]"

definition back_code_chain :: "(string \<times> string) list \<Rightarrow> string" where
  \<comment> \<open>The chain as the specification words it: the first entry whose label has a back
      keyword; failing that the first entry coded "00" or "0"; failing that an entry coded
      "99"; failing that the first entry; failing that the default.\<close>
  "back_code_chain items =
     (case find (\<lambda>(num, label). back_keyword label) items of
        Some (num, label) \<Rightarrow> num
      | None \<Rightarrow>
         (case find (\<lambda>(num, label). num = ''00'' \<or> num = ''0'') items of
            Some (num, label) \<Rightarrow> num
          | None \<Rightarrow>
             (case find (\<lambda>(num, label). num = ''99'') items of
                Some (num, label) \<Rightarrow> num
              | None \<Rightarrow> (case items of [] \<Rightarrow> ''99'' | (num, label) # rest \<Rightarrow> num))))"

definition shown_label :: "string \<Rightarrow> string" where
  \<comment> \<open>a label as a button shows it: cut to 25 characters and three dots when it is
      longer than 28\<close>
  "shown_label label = (if length label \<le> 28 then label else take 25 label @ ''...'')"

fun split_lines :: "string \<Rightarrow> string list \<times> string" where
  \<comment> \<open>The complete lines of a text, each without the line terminator that ends it, and
      what follows the last line terminator: all but the last and the last of
      \<^verbatim>\<open>text.split("\n")\<close>.\<close>
  "split_lines [] = ([], [])"
| "split_lines (c # cs) =
     (let r = split_lines cs
      in if c = NL then ([] # fst r, snd r)
         else (case fst r of [] \<Rightarrow> ([], c # snd r) | l # ls \<Rightarrow> ((c # l) # ls, snd r)))"

fun process_lines :: "session \<Rightarrow> real \<Rightarrow> string list \<Rightarrow> session \<times> effect list" where
  \<comment> \<open>the complete lines classified one after the other, each without a carriage return
      at its end\<close>
  "process_lines s now [] = (s, [])"
| "process_lines s now (l # ls) =
     (let r1 = process_line s now (rstrip_chars l [CR]) False;
          r2 = process_lines (fst r1) now ls
      in (fst r2, snd r1 @ snd r2))"



definition exited_session :: session where
  \<comment> \<open>a session whose child has exited by itself: the handles and tasks are still set\<close>
  "exited_session = (Session 1 2)\<lparr>proc := Some \<lparr>pid = 7, returncode = Some 0\<rparr>,
     stdin_writer := Some StreamWriter, reader_task := Some (Task 1), flusher_task := Some (Task 2)\<rparr>"

definition running_session :: session where
  \<comment> \<open>a session with a running child that waits for input\<close>
  "running_session = (Session 1 2)\<lparr>proc := Some \<lparr>pid = 7, returncode = None\<rparr>,
     stdin_writer := Some StreamWriter, awaiting_input := True, last_prompt_time := Some 3,
     input_prompt_text := Some ''Pilih:'', reader_task := Some (Task 1), flusher_task := Some (Task 2)\<rparr>"

section \<open>Normalising a menu code\<close>

lemma two_chars_zero:
  assumes "length n = 2" "startswith n ''0''"
  obtains c where "n = [CHR ''0'', c]"
proof -
  from assms(1) obtain a c where n: "n = [a, c]"
    by (cases n; cases "tl n") auto
  with assms(2) have "a = CHR ''0''" by (simp add: startswith_def)
  with n that show thesis by simp
qed

lemma normalize_choice_table:
  "normalize_choice num =
     (case map_of leading_zero_codes (strip num) of Some r \<Rightarrow> r | None \<Rightarrow> strip num)"
proof -
  define n where "n = strip num"
  show ?thesis
  proof (cases "length n = 2 \<and> startswith n ''0''")
    case True
    then obtain c where n: "n = [CHR ''0'', c]" using two_chars_zero by blast
    show ?thesis
    proof (cases "is_decimal c")
      case True
      then have "c \<in> set ''0123456789''" by (simp add: is_decimal_def)
      then consider "c = CHR ''0''" | "c = CHR ''1''" | "c = CHR ''2''" | "c = CHR ''3''"
        | "c = CHR ''4''" | "c = CHR ''5''" | "c = CHR ''6''" | "c = CHR ''7''"
        | "c = CHR ''8''" | "c = CHR ''9''" by auto
      then show ?thesis
        by cases (simp_all add: normalize_choice_def n_def[symmetric] n leading_zero_codes_def
            py_int_def is_decimal_def digit_val_def digit_char_def startswith_def)
    next
      case False
      then have "map_of leading_zero_codes n = None"
        by (auto simp: leading_zero_codes_def n is_decimal_def)
      moreover have "py_int n = None" using False by (simp add: py_int_def n)
      moreover have "n \<noteq> ''00''" using False by (auto simp: n is_decimal_def)
      ultimately show ?thesis
        by (simp add: normalize_choice_def n_def[symmetric] Let_def)
    qed
  next
    case False
    have "map_of leading_zero_codes n = None"
    proof (cases "map_of leading_zero_codes n")
      case (Some r)
      from map_of_SomeD[OF this] have "length n = 2 \<and> startswith n ''0''"
        by (auto simp: leading_zero_codes_def startswith_def)
      with False show ?thesis by simp
    qed simp
    moreover have "n \<noteq> ''00''" using False by (auto simp: startswith_def)
    ultimately show ?thesis using False
      by (auto simp add: normalize_choice_def n_def[symmetric] Let_def)
  qed
qed

lemmas strip_simps = strip_def lstrip_def rstrip_def is_space_def

lemma u_decimal_less: "u_decimal c = Some d \<Longrightarrow> d < 10"
  by (auto simp: u_decimal_def find_Some_iff split: option.splits)

lemma u_decimal_zero: "u_decimal 48 = Some 0"
  by (simp add: u_decimal_def U_ZEROS_def)

lemma u_normalize_choice_cases:
  "u_normalize_choice num =
     (case u_strip num of
        [a, c] \<Rightarrow>
          if a = 48 \<and> c \<noteq> 48
          then (case u_decimal c of Some d \<Rightarrow> [48 + d] | None \<Rightarrow> [a, c])
          else [a, c]
      | n \<Rightarrow> n)"
proof -
  define n where "n = u_strip num"
  show ?thesis
  proof (cases "length n = 2 \<and> take 1 n = [48]")
    case False
    then show ?thesis
      by (auto simp: u_normalize_choice_def n_def [symmetric] Let_def split: list.splits)
  next
    case True
    then obtain c where n: "n = [48, c]"
      by (cases n; cases "tl n") auto
    show ?thesis
    proof (cases "u_decimal c")
      case None
      then have "c \<noteq> 48" using u_decimal_zero by auto
      then show ?thesis using None
        by (simp add: u_normalize_choice_def n_def [symmetric] n u_int_def)
    next
      case (Some d)
      then have "d < 10" by (rule u_decimal_less)
      then show ?thesis using Some u_decimal_zero
        by (auto simp: u_normalize_choice_def n_def [symmetric] n u_int_def)
    qed
  qed
qed

lemmas u_simps = u_normalize_choice_def u_strip_def u_isspace_def U_SPACE_def u_int_def
  u_decimal_def U_ZEROS_def code_points_def

lemma of_char_mem: "(of_char c :: nat) \<in> of_char ` set cs \<longleftrightarrow> c \<in> set cs"
  by (rule inj_image_mem_iff [OF inj_of_char])

lemma u_isspace_small:
  "n < 256 \<Longrightarrow> u_isspace n \<longleftrightarrow> n \<in> set [9, 10, 11, 12, 13, 28, 29, 30, 31, 32, 133, 160]"
  by (auto simp: u_isspace_def U_SPACE_def)

lemma u_decimal_small:
  "n < 256 \<Longrightarrow> u_decimal n = (if 48 \<le> n \<and> n < 58 then Some (n - 48) else None)"
  by (simp add: u_decimal_def U_ZEROS_def)

lemma u_isspace_of_char: "u_isspace (of_char c) = is_space c"
proof -
  define n :: nat where "n = of_char c"
  have small: "n < 256" by (simp add: n_def)
  have "is_space c \<longleftrightarrow> n \<in> of_char ` set [CHR 0x09, CHR 0x0A, CHR 0x0B, CHR 0x0C,
      CHR 0x0D, CHR 0x1C, CHR 0x1D, CHR 0x1E, CHR 0x1F, CHR 0x20, CHR 0x85, CHR 0xA0]"
    unfolding is_space_def n_def by (rule of_char_mem [symmetric])
  then have "is_space c \<longleftrightarrow> n \<in> set [9, 10, 11, 12, 13, 28, 29, 30, 31, 32, 133, 160]"
    by simp
  then show ?thesis using u_isspace_small [OF small] by (simp add: n_def)
qed

lemma u_decimal_of_char:
  "u_decimal (of_char c) = (if is_decimal c then Some (digit_val c) else None)"
proof -
  define n :: nat where "n = of_char c"
  have small: "n < 256" by (simp add: n_def)
  have "is_decimal c \<longleftrightarrow> n \<in> of_char ` set ''0123456789''"
    unfolding is_decimal_def n_def by (rule of_char_mem [symmetric])
  then have "is_decimal c \<longleftrightarrow> n \<in> set [48, 49, 50, 51, 52, 53, 54, 55, 56, 57]"
    by simp
  also have "\<dots> \<longleftrightarrow> 48 \<le> n \<and> n < 58" by auto arith
  finally have d: "is_decimal c \<longleftrightarrow> 48 \<le> n \<and> n < 58" .
  show ?thesis using u_decimal_small [OF small] d
    by (simp add: n_def [symmetric] digit_val_def)
qed

lemma u_dropWhile_code_points:
  "dropWhile u_isspace (code_points xs) = code_points (dropWhile is_space xs)"
  by (induction xs) (simp_all add: code_points_def u_isspace_of_char)

lemma u_strip_code_points: "u_strip (code_points s) = code_points (strip s)"
proof -
  have r: "rev (code_points xs) = code_points (rev xs)" for xs
    by (simp add: code_points_def rev_map)
  show ?thesis
    by (simp only: u_strip_def strip_def lstrip_def rstrip_def u_dropWhile_code_points r)
qed

lemma code_points_eq_iff: "code_points s = code_points t \<longleftrightarrow> s = t"
  unfolding code_points_def by (rule inj_map_eq_map [OF inj_of_char])

lemma u_foldl_code_points:
  "list_all is_decimal n \<Longrightarrow>
     foldl (\<lambda>a c. 10 * a + the (u_decimal c)) acc (code_points n)
       = foldl (\<lambda>a c. 10 * a + digit_val c) acc n"
  by (induction n arbitrary: acc) (simp_all add: code_points_def u_decimal_of_char)

lemma u_int_code_points: "u_int (code_points n) = py_int n"
proof -
  have "list_all (\<lambda>c. u_decimal c \<noteq> None) (code_points n) = list_all is_decimal n"
    by (simp add: code_points_def list_all_iff u_decimal_of_char)
  then show ?thesis
    using u_foldl_code_points [of n 0]
    by (auto simp: u_int_def py_int_def code_points_def)
qed

lemma digit_char_code_point: "d < 10 \<Longrightarrow> of_char (digit_char d) = 48 + d"
proof -
  assume "d < 10"
  then have "d \<in> set [0, 1, 2, 3, 4, 5, 6, 7, 8, 9]" by auto
  then consider "d = 0" | "d = 1" | "d = 2" | "d = 3" | "d = 4" | "d = 5" | "d = 6" | "d = 7"
    | "d = 8" | "d = 9" by auto
  then show ?thesis by cases (simp_all add: digit_char_def)
qed

lemma u_str_code_points: "u_str v = code_points (py_str v)"
proof (induction v rule: py_str.induct)
  case (1 n)
  show ?case
  proof (cases "n < 10")
    case True
    have "u_str n = [48 + n]" using True by (subst u_str.simps) simp
    moreover have "py_str n = [digit_char n]" using True by (subst py_str.simps) simp
    ultimately show ?thesis using True by (simp add: code_points_def digit_char_code_point)
  next
    case False
    have m: "n mod 10 < 10" by simp
    have "u_str n = u_str (n div 10) @ [48 + n mod 10]"
      using False by (subst u_str.simps) (simp del: u_str.simps)
    moreover have "py_str n = py_str (n div 10) @ [digit_char (n mod 10)]"
      using False by (subst py_str.simps) (simp del: py_str.simps)
    moreover have "u_str (n div 10) = code_points (py_str (n div 10))"
      using "1.IH" False by simp
    ultimately show ?thesis
      by (simp add: code_points_def digit_char_code_point [OF m] del: u_str.simps py_str.simps)
  qed
qed

lemma u_normalize_choice_code_points:
  "u_normalize_choice (code_points s) = code_points (normalize_choice s)"
proof -
  define n where "n = strip s"
  have zz: "code_points ''00'' = [48, 48]" and z: "code_points ''0'' = [48]"
    by (simp_all add: code_points_def)
  have a: "code_points n = [48, 48] \<longleftrightarrow> n = ''00''"
    using code_points_eq_iff [of n "''00''"] by (simp only: zz)
  have "take (Suc 0) (code_points n) = code_points (take (Suc 0) n)"
    by (simp add: code_points_def take_map)
  then have b: "take (Suc 0) (code_points n) = [48] \<longleftrightarrow> startswith n ''0''"
    using code_points_eq_iff [of "take (Suc 0) n" "''0''"] by (simp add: z startswith_def)
  have len: "length (code_points n) = length n" by (simp add: code_points_def)
  show ?thesis
    by (simp add: u_normalize_choice_def normalize_choice_def u_strip_code_points
        n_def [symmetric] Let_def a b len u_int_code_points u_str_code_points zz
        split: option.splits del: u_str.simps py_str.simps)
qed

text \<open>
  C4, as the code has it, for every string. \<^verbatim>\<open>normalize_choice\<close> first strips the white
  space around its argument. A stripped code of two characters, "0" and a decimal digit
  other than "0" itself, becomes the one digit "0" to "9" of that digit's value
  (\<open>u_decimal_less\<close>: the value is below ten): "01" to "09" become "1" to "9", and so does
  "0" before the digit of another script. Every other stripped code, "00", "10" and "0"
  among them, is the result as it stands. On the texts of the 8-bit model this is the
  function of the sections above (\<open>u_normalize_choice_code_points\<close>).
\<close>

theorem u_normalize_choice_all_inputs:
  "u_normalize_choice num =
     (case u_strip num of
        [a, c] \<Rightarrow>
          if a = 48 \<and> c \<noteq> 48
          then (case u_decimal c of Some d \<Rightarrow> [48 + d] | None \<Rightarrow> [a, c])
          else [a, c]
      | n \<Rightarrow> n) \<and>
   list_all (\<lambda>(code, digit). u_normalize_choice (code_points code) = code_points digit)
     leading_zero_codes \<and>
   u_normalize_choice (code_points ''00'') = code_points ''00'' \<and>
   u_normalize_choice (code_points ''10'') = code_points ''10'' \<and>
   u_normalize_choice (code_points ''0'') = code_points ''0''"
proof
  show "u_normalize_choice num =
     (case u_strip num of
        [a, c] \<Rightarrow>
          if a = 48 \<and> c \<noteq> 48
          then (case u_decimal c of Some d \<Rightarrow> [48 + d] | None \<Rightarrow> [a, c])
          else [a, c]
      | n \<Rightarrow> n)"
    by (rule u_normalize_choice_cases)
  show "list_all (\<lambda>(code, digit). u_normalize_choice (code_points code) = code_points digit)
     leading_zero_codes \<and>
   u_normalize_choice (code_points ''00'') = code_points ''00'' \<and>
   u_normalize_choice (code_points ''10'') = code_points ''10'' \<and>
   u_normalize_choice (code_points ''0'') = code_points ''0''"
    by (simp add: u_simps leading_zero_codes_def)
qed

text \<open>
  C4 as stated fails. The code "0" followed by U+0661, the Arabic-Indic digit one, is
  none of "01" to "09" and has no white space around it; a menu line that starts with it
  gives it as the entry's code. It is not returned unchanged: the result is "1". Nor is
  " 7", whose white space is stripped.
\<close>

theorem u_normalize_choice_digit_counterexample:
  "u_normalize_choice [0x30, 0x661] = [0x31] \<and>
   [0x30, 0x661] \<notin> set (map (code_points \<circ> fst) leading_zero_codes) \<and>
   u_normalize_choice (code_points '' 7'') = code_points ''7''"
  by (simp add: u_simps leading_zero_codes_def)

section \<open>The back code\<close>

lemma find_back_label_find:
  "find_back_label items = map_option fst (find (\<lambda>(num, label). back_keyword label) items)"
  by (induction items rule: find_back_label.induct) auto

lemma find_back_zero_find:
  "find_back_zero items = map_option fst (find (\<lambda>(num, label). num = ''00'' \<or> num = ''0'') items)"
  by (induction items rule: find_back_zero.induct) auto

lemma find_back_99_find:
  "find_back_99 items = map_option fst (find (\<lambda>(num, label). num = ''99'') items)"
  by (induction items rule: find_back_99.induct) auto

text \<open>
  C7. The three loops of \<^verbatim>\<open>find_back_num\<close> and its last line compute the priority
  chain: the code of the first entry whose label holds a back keyword, else of the first
  entry coded "00" or "0", else "99" when an entry has that code, else the code of the
  first entry, and "99" for the empty list.
\<close>

theorem find_back_num_chain: "find_back_num items = back_code_chain items"
  by (simp add: find_back_num_def back_code_chain_def find_back_label_find find_back_zero_find
      find_back_99_find split: option.splits prod.splits)

section \<open>A flush of blank output\<close>

lemma strip_Nil_iff: "strip s = [] \<longleftrightarrow> list_all is_space s"
proof
  assume "strip s = []"
  then have all: "\<forall>x\<in>set (dropWhile is_space s). is_space x"
    by (simp add: strip_def rstrip_def lstrip_def)
  have "dropWhile is_space s = []"
  proof (rule ccontr)
    assume ne: "dropWhile is_space s \<noteq> []"
    then have "\<not> is_space (hd (dropWhile is_space s))" by (rule hd_dropWhile)
    moreover have "hd (dropWhile is_space s) \<in> set (dropWhile is_space s)"
      using ne by (rule hd_in_set)
    ultimately show False using all by blast
  qed
  then show "list_all is_space s" by (simp add: list_all_iff)
next
  assume "list_all is_space s"
  then have "dropWhile is_space s = []" by (simp add: list_all_iff)
  then show "strip s = []"
    by (simp only: strip_def rstrip_def lstrip_def rev.simps dropWhile.simps)
qed

lemma join_blank: "list_all is_space (join [NL] ls) \<longleftrightarrow> (\<forall>l\<in>set ls. list_all is_space l)"
  by (induction "[NL]" ls rule: join.induct) (auto simp: is_space_def)

lemma strip_join_blank:
  "strip (join [NL] ls) = [] \<longleftrightarrow> (\<forall>l\<in>set ls. list_all is_space l)"
  by (simp add: strip_Nil_iff join_blank)

text \<open>
  C10. When there is no menu entry and the buffered lines, joined and stripped, are the
  empty text (by \<open>strip_join_blank\<close>: every line is empty or white space only), the flush
  leaves both buffers empty and hands nothing to the sink. With both buffers empty this
  is the early return of \<^verbatim>\<open>_flush_buffer_and_menu\<close>.
\<close>

theorem flush_blank_sends_nothing:
  assumes "menu_items s = []" and "strip (join [NL] (buffer_lines s)) = []"
  shows "flush_buffer_and_menu s ok = (s\<lparr>buffer_lines := [], menu_items := []\<rparr>, [])"
  using assms by (simp add: flush_buffer_and_menu_def Let_def)

theorem flush_blank_sends_nothing_witness:
  "flush_buffer_and_menu ((Session 1 2)\<lparr>buffer_lines := ['' '', [CHR 0x09, CHR 0x0D]]\<rparr>) (\<lambda>k. True)
     = (Session 1 2, []) \<and>
   flush_buffer_and_menu (Session 1 2) (\<lambda>k. True) = (Session 1 2, [])"
  using flush_blank_sends_nothing [of "(Session 1 2)\<lparr>buffer_lines := ['' '', [CHR 0x09, CHR 0x0D]]\<rparr>" "\<lambda>k. True"]
    flush_blank_sends_nothing [of "Session 1 2" "\<lambda>k. True"]
  by (simp add: Session_def strip_simps)

section \<open>The line that asks for a key\<close>

lemma press_continue_nonempty: "press_continue line \<Longrightarrow> line \<noteq> []"
  by (auto simp: press_continue_def lower_def)

lemmas lower_simps = lower_def lower_char_def is_upper_def

text \<open>
  C6. A line that holds, in any case, "press enter to continue" or "press any key to
  continue" makes the classifier write one line terminator to the child's input, the
  session having an input writer, and nothing else: the session comes back as it was. The
  line is appended neither to the plain lines nor to the menu entries, so no flush, which
  sends only what these two hold, can carry it.
\<close>

theorem press_continue_discarded:
  assumes "press_continue line" and "stdin_writer s = Some w"
  shows "process_line s now line is_partial = (s, [StdinWrite [NL]])"
  using assms press_continue_nonempty [of line] by (simp add: process_line_def)

theorem press_continue_discarded_witness:
  "process_line ((Session 1 2)\<lparr>stdin_writer := Some StreamWriter\<rparr>) 3 ''Press ENTER to Continue...'' False
     = ((Session 1 2)\<lparr>stdin_writer := Some StreamWriter\<rparr>, [StdinWrite [NL]])"
  using press_continue_discarded [of "''Press ENTER to Continue...''"
      "(Session 1 2)\<lparr>stdin_writer := Some StreamWriter\<rparr>" StreamWriter 3 False]
  by (simp add: press_continue_def lower_simps startswith_def Session_def)

section \<open>Sending a text that fits one message\<close>

lemma chunk_end_fits: "length txt \<le> start + TG_MAX \<Longrightarrow> chunk_end txt start = length txt"
  by (simp add: chunk_end_def Let_def)

lemma send_loop_done: "length txt \<le> start \<Longrightarrow> send_loop chat txt rm ok k start first = []"
  by (subst send_loop.simps) simp

lemma send_long_message_short:
  assumes "txt \<noteq> []" and "length txt \<le> TG_MAX"
  shows "send_long_message chat txt rm ok = [SendMessage chat txt rm]"
proof -
  have "chunk_end txt 0 = length txt" using assms(2) by (simp add: chunk_end_fits)
  then show ?thesis using assms(1)
    by (simp add: send_long_message_def send_loop.simps [of _ _ _ _ _ 0] send_loop_done Let_def)
qed

section \<open>The idle threshold\<close>








section \<open>Stopping the tool\<close>

text \<open>
  C5, as the code has it. With a process running, \<^verbatim>\<open>stop_tool\<close> first asks the child to
  terminate, kills it only after the wait for its exit has timed out, and then, however
  that went, cancels both tasks, clears the four handles and reports the stop. With no
  process running it returns at once: it sends the notice that no tool is running and
  leaves the session, its tasks and handles included, as it was.
\<close>

theorem stop_tool_when_running:
  "(is_running s \<longrightarrow>
      stop_tool s child =
        (s\<lparr>reader_task := None, flusher_task := None, proc := None, stdin_writer := None\<rparr>,
         terminate_child child @ map Cancel (List.map_filter id [reader_task s, flusher_task s]) @
         [SendMessage (chat_id s) (PICT # '' Tool dihentikan.'') (Some main_bot_kb)]) \<and>
      \<not> is_running (fst (stop_tool s child))) \<and>
   (\<not> is_running s \<longrightarrow>
      stop_tool s child =
        (s, [SendMessage (chat_id s) (PICT # PICT # '' Tidak ada tool berjalan.'') (Some main_bot_kb)])) \<and>
   hd (terminate_child child) = Terminate \<and>
   (Kill \<in> set (terminate_child child) \<longleftrightarrow> child = KilledAfterGrace \<or> child = KillRaises) \<and>
   (list_all (\<lambda>e. e \<noteq> Kill) (takeWhile (\<lambda>e. e \<noteq> WaitExit) (terminate_child child)))"
  by (cases child) (simp_all add: stop_tool_def cancel_tasks_def is_running_def)

theorem stop_tool_when_running_witness:
  "stop_tool running_session KilledAfterGrace =
     (running_session\<lparr>reader_task := None, flusher_task := None, proc := None, stdin_writer := None\<rparr>,
      [Terminate, WaitExit, Kill, WaitExit, Cancel (Task 1), Cancel (Task 2),
       SendMessage 2 (PICT # '' Tool dihentikan.'') (Some main_bot_kb)]) \<and>
   stop_tool (Session 1 2) ExitsInGrace =
     (Session 1 2, [SendMessage 2 (PICT # PICT # '' Tidak ada tool berjalan.'') (Some main_bot_kb)])"
  using stop_tool_when_running [of running_session KilledAfterGrace]
    stop_tool_when_running [of "Session 1 2" ExitsInGrace]
  by (simp add: running_session_def Session_def is_running_def List.map_filter_simps)

text \<open>
  C5 as stated fails for a session whose child has exited on its own: the process is not
  running, so \<^verbatim>\<open>stop_tool\<close> returns before \<^verbatim>\<open>_cancel_tasks\<close>; the handles stay and no task
  is cancelled.
\<close>

theorem stop_tool_not_running_counterexample:
  "proc (fst (stop_tool exited_session ExitsInGrace)) \<noteq> None \<and>
   stdin_writer (fst (stop_tool exited_session ExitsInGrace)) = Some StreamWriter \<and>
   reader_task (fst (stop_tool exited_session ExitsInGrace)) = Some (Task 1) \<and>
   flusher_task (fst (stop_tool exited_session ExitsInGrace)) = Some (Task 2) \<and>
   Cancel (Task 1) \<notin> set (snd (stop_tool exited_session ExitsInGrace)) \<and>
   Cancel (Task 2) \<notin> set (snd (stop_tool exited_session ExitsInGrace))"
  by (simp add: stop_tool_def exited_session_def Session_def is_running_def)

section \<open>A write to the child that fails\<close>

lemma route_input_general:
  "(is_running s \<and> stdin_writer s \<noteq> None \<longrightarrow>
      text_handler s msg True = (input_sent s, [StdinWrite (strip msg @ [NL])]) \<and>
      callback_menu_choice s (''menu_choice|'' @ num) True = (input_sent s, [StdinWrite (num @ [NL])]) \<and>
      fst (text_handler s msg False) = s \<and>
      fst (callback_menu_choice s (''menu_choice|'' @ num) False) = s \<and>
      sent_texts (snd (text_handler s msg False)) = [PICT # '' Gagal mengirim input ke tool.''] \<and>
      sent_texts (snd (callback_menu_choice s (''menu_choice|'' @ num) False)) = []) \<and>
   (\<not> (is_running s \<and> stdin_writer s \<noteq> None) \<longrightarrow>
      fst (text_handler s msg io_ok) = s \<and> stdin_writes (snd (text_handler s msg io_ok)) = [] \<and>
      callback_menu_choice s data io_ok = (s, []))"
  by (auto simp: text_handler_def callback_menu_choice_def Let_def sent_texts_def stdin_writes_def
      List.map_filter_simps)

text \<open>
  C8, at a session with a running process whose input can no longer be written. Both
  routes try the write and leave the session as it was. The free-text route then reports
  the failure to the user; the menu route sends nothing.
\<close>

theorem callback_write_failure_unreported:
  "callback_menu_choice running_session ''menu_choice|1'' False
     = (running_session, [StdinWrite [CHR ''1'', NL]]) \<and>
   text_handler running_session ''1'' False
     = (running_session, [StdinWrite [CHR ''1'', NL],
          SendMessage 2 (PICT # '' Gagal mengirim input ke tool.'') (Some main_bot_kb)])"
  by (simp add: callback_menu_choice_def text_handler_def running_session_def Session_def
      is_running_def strip_simps)

section \<open>Codes shown and codes sent\<close>

lemma callback_data_code:
  "tl (dropWhile (\<lambda>c. c \<noteq> CHR ''|'') (''menu_choice|'' @ code)) = code"
  by simp

text \<open>
  C9, as the code has it. The button made for a menu entry shows the normalized code in
  its label and carries the same normalized code in its callback data, and a press of
  the button writes that code, followed by a line terminator, to the child: what the
  button shows is what it sends. The keyboard of a flushed menu is made of these buttons
  and the row that ends it. The menu block in the text of the flushed message is another
  matter: each of its lines gives the code as it was parsed, not normalized.
\<close>

theorem button_shows_and_sends_normalized:
  "fst (menu_button (num, label)) = normalize_choice num @ ''. '' @ shown_label label \<and>
   snd (menu_button (num, label)) = ''menu_choice|'' @ normalize_choice num \<and>
   (is_running s \<and> stdin_writer s \<noteq> None \<longrightarrow>
      snd (callback_menu_choice s (snd (menu_button (num, label))) True)
        = [StdinWrite (normalize_choice num @ [NL])]) \<and>
   (\<exists>back. menu_kb_from_items items
        = InlineKeyboardMarkup (rows_of_two (map menu_button items) @ [back])) \<and>
   (menu_items s \<noteq> [] \<longrightarrow>
      (\<exists>head. snd (flush_buffer_and_menu s ok)
         = send_long_message (chat_id s) (head @ join [NL] (map menu_line (menu_items s)))
             (Some (menu_kb_from_items (menu_items s))) ok)) \<and>
   menu_line (num, label) = num @ ''. '' @ label"
proof -
  have flush: "menu_items s \<noteq> [] \<Longrightarrow>
      \<exists>head. snd (flush_buffer_and_menu s ok)
         = send_long_message (chat_id s) (head @ join [NL] (map menu_line (menu_items s)))
             (Some (menu_kb_from_items (menu_items s))) ok"
  proof (cases "strip (join [NL] (buffer_lines s)) = []")
    case True
    assume "menu_items s \<noteq> []"
    then have "snd (flush_buffer_and_menu s ok)
         = send_long_message (chat_id s) ((PICT # '' Menu:'' @ [NL]) @ join [NL] (map menu_line (menu_items s)))
             (Some (menu_kb_from_items (menu_items s))) ok"
      using True by (simp add: flush_buffer_and_menu_def Let_def)
    then show ?thesis by blast
  next
    case False
    assume "menu_items s \<noteq> []"
    then have "snd (flush_buffer_and_menu s ok)
         = send_long_message (chat_id s)
             ((strip (join [NL] (buffer_lines s)) @ [NL, NL, PICT] @ '' Menu:'' @ [NL]) @
               join [NL] (map menu_line (menu_items s)))
             (Some (menu_kb_from_items (menu_items s))) ok"
      using False by (simp add: flush_buffer_and_menu_def Let_def)
    then show ?thesis by blast
  qed
  show ?thesis
    using flush
    by (simp add: menu_button_def shown_label_def Let_def callback_menu_choice_def
        menu_kb_from_items_def menu_line_def)
qed

theorem button_shows_and_sends_normalized_witness:
  "snd (callback_menu_choice (running_session\<lparr>menu_items := [(''01'', ''Foo'')]\<rparr>)
        (snd (menu_button (''01'', ''Foo''))) True)
     = [StdinWrite [CHR ''1'', NL]] \<and>
   fst (menu_button (''01'', ''Foo'')) = ''1. Foo'' \<and>
   snd (flush_buffer_and_menu (running_session\<lparr>menu_items := [(''01'', ''Foo'')]\<rparr>) (\<lambda>k. True))
     = [SendMessage 2 (PICT # '' Menu:'' @ [NL] @ ''01. Foo'')
         (Some (InlineKeyboardMarkup [[(''1. Foo'', ''menu_choice|1'')],
            [(PICT # PICT # '' Menu Utama (Tools)'', ''menu_back|1''), (PICT # '' Batal'', ''menu_cancel'')]]))]"
proof -
  have n: "normalize_choice ''01'' = ''1''"
    by (simp add: normalize_choice_table leading_zero_codes_def strip_simps)
  have a: "snd (callback_menu_choice (running_session\<lparr>menu_items := [(''01'', ''Foo'')]\<rparr>)
        (snd (menu_button (''01'', ''Foo''))) True)
     = [StdinWrite [CHR ''1'', NL]] \<and> fst (menu_button (''01'', ''Foo'')) = ''1. Foo''"
    using button_shows_and_sends_normalized [of "''01''" "''Foo''"
        "running_session\<lparr>menu_items := [(''01'', ''Foo'')]\<rparr>" "[(''01'', ''Foo'')]" "\<lambda>k. True"]
    by (auto simp: n shown_label_def running_session_def Session_def is_running_def)
  have b: "snd (flush_buffer_and_menu (running_session\<lparr>menu_items := [(''01'', ''Foo'')]\<rparr>) (\<lambda>k. True))
     = [SendMessage 2 (PICT # '' Menu:'' @ [NL] @ ''01. Foo'')
         (Some (InlineKeyboardMarkup [[(''1. Foo'', ''menu_choice|1'')],
            [(PICT # PICT # '' Menu Utama (Tools)'', ''menu_back|1''), (PICT # '' Batal'', ''menu_cancel'')]]))]"
    by (simp add: flush_buffer_and_menu_def running_session_def Session_def strip_simps
        menu_line_def menu_kb_from_items_def menu_button_def n find_back_num_def back_keyword_def
        lower_simps startswith_def send_long_message_short TG_MAX_def)
  from a b show ?thesis by simp
qed

text \<open>
  C9 as stated fails in the menu block: for the entry ("01", "Foo") the flushed text
  shows "01. Foo", where the normalized code, which the button sends, is "1".
\<close>

theorem menu_block_raw_counterexample:
  "sent_texts (snd (flush_buffer_and_menu (running_session\<lparr>menu_items := [(''01'', ''Foo'')]\<rparr>) (\<lambda>k. True)))
     = [PICT # '' Menu:'' @ [NL] @ ''01. Foo''] \<and>
   normalize_choice ''01'' = ''1'' \<and>
   snd (menu_button (''01'', ''Foo'')) = ''menu_choice|1''"
proof -
  have n: "normalize_choice ''01'' = ''1''"
    by (simp add: normalize_choice_table leading_zero_codes_def strip_simps)
  show ?thesis
    by (simp add: flush_buffer_and_menu_def running_session_def Session_def strip_simps
        menu_line_def menu_button_def n send_long_message_short TG_MAX_def sent_texts_def
        List.map_filter_simps)
qed

section \<open>Chunks of a long message\<close>

lemma rfind_Some:
  "rfind txt start e = Some nl \<Longrightarrow>
     start \<le> nl \<and> nl < e \<and> nl < length txt \<and> txt ! nl = NL \<and>
     (\<forall>j. nl < j \<and> j < e \<and> j < length txt \<longrightarrow> txt ! j \<noteq> NL)"
proof (induction e)
  case 0
  then show ?case by simp
next
  case (Suc e)
  show ?case
  proof (cases "e < length txt \<and> txt ! e = NL")
    case True
    with Suc.prems show ?thesis by (auto split: if_splits)
  next
    case False
    with Suc.prems have r: "rfind txt start e = Some nl" by (auto split: if_splits)
    from Suc.IH [OF r] False show ?thesis
      by (auto simp: less_Suc_eq)
  qed
qed

lemma rfind_None:
  "rfind txt start e = None \<Longrightarrow> \<forall>j. start \<le> j \<and> j < e \<and> j < length txt \<longrightarrow> txt ! j \<noteq> NL"
proof (induction e)
  case 0
  then show ?case by simp
next
  case (Suc e)
  show ?case
  proof (cases "e < start")
    case True
    then show ?thesis by auto
  next
    case False
    with Suc.prems have "\<not> (e < length txt \<and> txt ! e = NL)" and "rfind txt start e = None"
      by (auto split: if_splits)
    with Suc.IH show ?thesis by (auto simp: less_Suc_eq)
  qed
qed

lemma chunk_end_le_limit: "chunk_end txt start \<le> start + TG_MAX"
  by (auto simp: chunk_end_def Let_def split: option.splits dest: rfind_range)

lemma chunk_end_no_break:
  assumes "start + TG_MAX < length txt"
    and "\<forall>j. start < j \<and> j < start + TG_MAX \<longrightarrow> txt ! j \<noteq> NL"
  shows "chunk_end txt start = start + TG_MAX"
proof (cases "rfind txt start (start + TG_MAX)")
  case None
  then show ?thesis using assms(1) by (simp add: chunk_end_def Let_def)
next
  case (Some nl)
  from rfind_Some [OF Some] assms(2) have "\<not> start < nl" by blast
  then show ?thesis using assms(1) Some by (simp add: chunk_end_def Let_def)
qed

lemma chunk_end_break:
  assumes "start + TG_MAX < length txt"
    and "start < nl" "nl < start + TG_MAX" "txt ! nl = NL"
    and "\<forall>j. nl < j \<and> j < start + TG_MAX \<longrightarrow> txt ! j \<noteq> NL"
  shows "chunk_end txt start = nl + 1"
proof (cases "rfind txt start (start + TG_MAX)")
  case None
  from rfind_None [OF None] assms have False by auto
  then show ?thesis ..
next
  case (Some m)
  note m = rfind_Some [OF Some]
  have "m = nl"
  proof (rule ccontr)
    assume "m \<noteq> nl"
    then consider "m < nl" | "nl < m" by linarith
    then show False
    proof cases
      case 1
      with m assms show False by auto
    next
      case 2
      with m assms show False by auto
    qed
  qed
  then show ?thesis using assms Some by (simp add: chunk_end_def Let_def)
qed

lemma sent_texts_Cons [simp]:
  "sent_texts (SendMessage c t m # es) = t # sent_texts es"
  by (simp add: sent_texts_def List.map_filter_simps)

lemma sent_texts_Nil [simp]: "sent_texts [] = []"
  by (simp add: sent_texts_def List.map_filter_simps)

lemma send_loop_texts:
  "start \<le> length tx \<Longrightarrow>
   concat (sent_texts (send_loop chat tx rm ok k start first)) = drop start tx \<and>
   (\<forall>i < length (sent_texts (send_loop chat tx rm ok k start first)).
      start + length (concat (take i (sent_texts (send_loop chat tx rm ok k start first)))) < length tx \<and>
      sent_texts (send_loop chat tx rm ok k start first) ! i =
        take (chunk_end tx (start + length (concat (take i (sent_texts (send_loop chat tx rm ok k start first))))) -
              (start + length (concat (take i (sent_texts (send_loop chat tx rm ok k start first))))))
          (drop (start + length (concat (take i (sent_texts (send_loop chat tx rm ok k start first))))) tx))"
proof (induction chat tx rm ok k start first rule: send_loop.induct)
  case (1 chat tx rm ok k start first)
  show ?case
  proof (cases "start < length tx")
    case False
    then show ?thesis by (simp add: send_loop_done)
  next
    case True
    define e where "e = chunk_end tx start"
    define chunk where "chunk = take (e - start) (drop start tx)"
    define first' where "first' = (if (first \<and> rm \<noteq> None) \<and> ok k then False else first)"
    define cs where "cs = sent_texts (send_loop chat tx rm ok (Suc k) e first')"
    have e: "start < e" "e \<le> length tx"
      using True by (simp_all add: e_def chunk_end_gt chunk_end_le)
    have unfold: "sent_texts (send_loop chat tx rm ok k start first) = chunk # cs"
      using True by (subst send_loop.simps) (simp add: Let_def e_def chunk_def cs_def first'_def)
    have IH: "concat cs = drop e tx \<and>
      (\<forall>i < length cs. e + length (concat (take i cs)) < length tx \<and>
         cs ! i = take (chunk_end tx (e + length (concat (take i cs))) - (e + length (concat (take i cs))))
                    (drop (e + length (concat (take i cs))) tx))"
      using "1.IH" [OF True refl refl refl] e(2)
      unfolding cs_def e_def first'_def by simp
    have len: "length chunk = e - start" using e by (simp add: chunk_def)
    have "chunk @ drop e tx = drop start tx"
    proof -
      have "chunk @ drop (e - start) (drop start tx) = drop start tx"
        unfolding chunk_def by (rule append_take_drop_id)
      moreover have "drop (e - start) (drop start tx) = drop e tx" using e by simp
      ultimately show ?thesis by (simp only:)
    qed
    then have A: "concat (chunk # cs) = drop start tx" using IH by simp
    have B: "start + length (concat (take i (chunk # cs))) < length tx \<and>
        (chunk # cs) ! i =
          take (chunk_end tx (start + length (concat (take i (chunk # cs)))) -
                (start + length (concat (take i (chunk # cs)))))
            (drop (start + length (concat (take i (chunk # cs)))) tx)"
      if "i < length (chunk # cs)" for i
    proof (cases i)
      case 0
      then show ?thesis using True by (simp add: chunk_def e_def)
    next
      case (Suc j)
      then have j: "j < length cs" using that by simp
      have eq: "start + length (concat (take i (chunk # cs))) = e + length (concat (take j cs))"
        using Suc len e by simp
      from IH j have "e + length (concat (take j cs)) < length tx \<and>
         cs ! j = take (chunk_end tx (e + length (concat (take j cs))) - (e + length (concat (take j cs))))
                    (drop (e + length (concat (take j cs))) tx)"
        by blast
      moreover have "(chunk # cs) ! i = cs ! j" using Suc by simp
      ultimately show ?thesis by (simp only: eq)
    qed
    show ?thesis unfolding unfold using A B by blast
  qed
qed

lemma send_long_message_texts:
  "concat (sent_texts (send_long_message chat tx rm ok)) = tx \<and>
   (\<forall>i < length (sent_texts (send_long_message chat tx rm ok)).
      length (concat (take i (sent_texts (send_long_message chat tx rm ok)))) < length tx \<and>
      sent_texts (send_long_message chat tx rm ok) ! i =
        take (chunk_end tx (length (concat (take i (sent_texts (send_long_message chat tx rm ok))))) -
              length (concat (take i (sent_texts (send_long_message chat tx rm ok)))))
          (drop (length (concat (take i (sent_texts (send_long_message chat tx rm ok))))) tx))"
proof (cases "tx = []")
  case True
  then show ?thesis by (simp add: send_long_message_def)
next
  case False
  then show ?thesis
    using send_loop_texts [of 0 tx chat rm ok 0 True] by (simp add: send_long_message_def)
qed

text \<open>
  C3. The texts handed to the sink for a text that is not empty are consecutive pieces
  of it: put together they are the text again, and each is non-empty and at most
  \<open>TG_MAX\<close> = 3800 characters long. A piece reaches the end of the text when what is left
  fits the limit. Otherwise it is cut: right after the last line terminator that lies
  after the first character of the piece and before the limit, when there is one, and at
  the limit itself when there is none. Here the piece number \<open>i\<close> starts where the pieces
  before it end, at \<open>length (concat (take i cs))\<close>.
\<close>

theorem send_long_message_chunks:
  assumes "tx \<noteq> []" and "cs = sent_texts (send_long_message chat tx rm ok)"
  shows "concat cs = tx \<and>
    (\<forall>c \<in> set cs. c \<noteq> [] \<and> length c \<le> TG_MAX) \<and>
    (\<forall>i < length cs.
       (length tx \<le> length (concat (take i cs)) + TG_MAX \<longrightarrow>
          cs ! i = drop (length (concat (take i cs))) tx) \<and>
       (length (concat (take i cs)) + TG_MAX < length tx \<longrightarrow>
          (\<forall>nl. length (concat (take i cs)) < nl \<and> nl < length (concat (take i cs)) + TG_MAX \<and>
                tx ! nl = NL \<and>
                (\<forall>j. nl < j \<and> j < length (concat (take i cs)) + TG_MAX \<longrightarrow> tx ! j \<noteq> NL) \<longrightarrow>
             cs ! i = take (nl + 1 - length (concat (take i cs))) (drop (length (concat (take i cs))) tx)) \<and>
          ((\<forall>j. length (concat (take i cs)) < j \<and> j < length (concat (take i cs)) + TG_MAX \<longrightarrow>
                tx ! j \<noteq> NL) \<longrightarrow>
             cs ! i = take TG_MAX (drop (length (concat (take i cs))) tx))))"
proof -
  note t = send_long_message_texts [of chat tx rm ok, folded assms(2)]
  have nth: "length (concat (take i cs)) < length tx \<and>
      cs ! i = take (chunk_end tx (length (concat (take i cs))) - length (concat (take i cs)))
                 (drop (length (concat (take i cs))) tx)"
    if "i < length cs" for i
    using t that by blast
  have size: "c \<noteq> [] \<and> length c \<le> TG_MAX" if "c \<in> set cs" for c
  proof -
    from that obtain i where i: "i < length cs" "c = cs ! i" by (auto simp: in_set_conv_nth)
    define st where "st = length (concat (take i cs))"
    from nth [OF i(1)] have st: "st < length tx"
      and c: "c = take (chunk_end tx st - st) (drop st tx)"
      by (simp_all add: st_def i(2))
    have "st < chunk_end tx st" "chunk_end tx st \<le> length tx" "chunk_end tx st \<le> st + TG_MAX"
      using st by (simp_all add: chunk_end_gt chunk_end_le chunk_end_le_limit)
    then show ?thesis by (auto simp: c)
  qed
  have cut: "(length tx \<le> st + TG_MAX \<longrightarrow> cs ! i = drop st tx) \<and>
       (st + TG_MAX < length tx \<longrightarrow>
          (\<forall>nl. st < nl \<and> nl < st + TG_MAX \<and> tx ! nl = NL \<and>
                (\<forall>j. nl < j \<and> j < st + TG_MAX \<longrightarrow> tx ! j \<noteq> NL) \<longrightarrow>
             cs ! i = take (nl + 1 - st) (drop st tx)) \<and>
          ((\<forall>j. st < j \<and> j < st + TG_MAX \<longrightarrow> tx ! j \<noteq> NL) \<longrightarrow>
             cs ! i = take TG_MAX (drop st tx)))"
    if "i < length cs" "st = length (concat (take i cs))" for i st
  proof -
    from nth [OF that(1)] have st: "st < length tx"
      and c: "cs ! i = take (chunk_end tx st - st) (drop st tx)"
      by (simp_all add: that(2))
    show ?thesis
      by (auto simp: c chunk_end_fits chunk_end_break chunk_end_no_break)
  qed
  show ?thesis using t size cut by blast
qed

theorem send_long_message_chunks_witness:
  "sent_texts (send_long_message 2 (replicate 3799 (CHR ''a'') @ NL # ''bc'') None (\<lambda>k. True))
     = [replicate 3799 (CHR ''a'') @ [NL], ''bc'']"
proof -
  define big where "big = replicate 3799 (CHR ''a'') @ NL # ''bc''"
  define cs where "cs = sent_texts (send_long_message 2 big None (\<lambda>k. True))"
  have big_ne: "big \<noteq> []" by (simp add: big_def)
  have len: "length big = 3802" by (simp add: big_def)
  note T = send_long_message_chunks [OF big_ne cs_def]
  from T have c: "concat cs = big" by blast
  from T have ne: "\<forall>c \<in> set cs. c \<noteq> []" by blast
  from T have fits: "i < length cs \<Longrightarrow> length big \<le> length (concat (take i cs)) + TG_MAX \<Longrightarrow>
      cs ! i = drop (length (concat (take i cs))) big" for i
    by blast
  from T have cut: "i < length cs \<Longrightarrow> length (concat (take i cs)) + TG_MAX < length big \<Longrightarrow>
      length (concat (take i cs)) < nl \<and> nl < length (concat (take i cs)) + TG_MAX \<and>
         big ! nl = NL \<and> (\<forall>j. nl < j \<and> j < length (concat (take i cs)) + TG_MAX \<longrightarrow> big ! j \<noteq> NL) \<Longrightarrow>
      cs ! i = take (nl + 1 - length (concat (take i cs))) (drop (length (concat (take i cs))) big)" for i nl
    by blast
  from c big_ne obtain c0 cs1 where cs: "cs = c0 # cs1" by (cases cs) auto
  have "cs ! 0 = take (3799 + 1 - length (concat (take 0 cs))) (drop (length (concat (take 0 cs))) big)"
  proof (rule cut)
    show "0 < length cs" by (simp add: cs)
    show "length (concat (take 0 cs)) + TG_MAX < length big" by (simp add: len TG_MAX_def)
    have "big ! 3799 = NL" by (simp add: big_def nth_append)
    then show "length (concat (take 0 cs)) < 3799 \<and> 3799 < length (concat (take 0 cs)) + TG_MAX \<and>
         big ! 3799 = NL \<and> (\<forall>j. 3799 < j \<and> j < length (concat (take 0 cs)) + TG_MAX \<longrightarrow> big ! j \<noteq> NL)"
      by (auto simp: TG_MAX_def)
  qed
  then have c0: "c0 = replicate 3799 (CHR ''a'') @ [NL]"
    by (simp add: cs big_def)
  from c have c1: "concat cs1 = ''bc''" by (simp add: cs c0 big_def)
  then obtain c1 cs2 where cs1: "cs1 = c1 # cs2" by (cases cs1) auto
  have "cs ! 1 = drop (length (concat (take 1 cs))) big"
  proof (rule fits)
    show "1 < length cs" by (simp add: cs cs1)
    show "length big \<le> length (concat (take 1 cs)) + TG_MAX" by (simp add: len cs c0 TG_MAX_def)
  qed
  then have c1': "c1 = ''bc''" by (simp add: cs cs1 c0 big_def)
  with c1 have "concat cs2 = []" by (simp add: cs1)
  with ne have "cs2 = []" by (cases cs2) (auto simp: cs cs1)
  then show ?thesis by (simp add: cs_def [symmetric] big_def [symmetric] cs cs1 c0 c1')
qed

section \<open>A chunk fed to the reader\<close>

lemma split_lines_no_NL: "NL \<notin> set p \<Longrightarrow> split_lines p = ([], p)"
  by (induction p) auto

lemma split_lines_line:
  "NL \<notin> set l \<Longrightarrow> split_lines (l @ NL # rest) = (l # fst (split_lines rest), snd (split_lines rest))"
  by (induction l) (auto simp: Let_def)

lemma split_lines_joined:
  "concat (map (\<lambda>l. l @ [NL]) (fst (split_lines t))) @ snd (split_lines t) = t"
  by (induction t) (auto simp: Let_def split: list.splits)

lemma split_lines_rest: "NL \<notin> set (snd (split_lines t))"
  by (induction t) (auto simp: Let_def split: list.splits)

lemma split_lines_each: "l \<in> set (fst (split_lines t)) \<Longrightarrow> NL \<notin> set l"
  by (induction t arbitrary: l) (auto simp: Let_def split: list.splits if_splits)

lemma process_line_partial_update:
  "process_line (s\<lparr>partial := x\<rparr>) now l b =
     ((fst (process_line s now l b))\<lparr>partial := x\<rparr>, snd (process_line s now l b))"
  by (simp add: process_line_def Let_def split: option.splits prod.splits)

lemma process_lines_partial_update:
  "process_lines (s\<lparr>partial := x\<rparr>) now ls =
     ((fst (process_lines s now ls))\<lparr>partial := x\<rparr>, snd (process_lines s now ls))"
proof (induction ls arbitrary: s)
  case Nil
  then show ?case by simp
next
  case (Cons l ls)
  show ?case
    by (simp add: Let_def process_line_partial_update [where s = s] Cons.IH)
qed

lemma partial_process_lines: "partial (fst (process_lines s now ls)) = partial s"
  by (induction ls arbitrary: s) (simp_all add: Let_def partial_process_line)

lemma takeWhile_tl_dropWhile:
  "NL \<in> set p \<Longrightarrow>
     p = takeWhile (\<lambda>c. c \<noteq> NL) p @ NL # tl (dropWhile (\<lambda>c. c \<noteq> NL) p)"
proof -
  assume "NL \<in> set p"
  then have ne: "dropWhile (\<lambda>c. c \<noteq> NL) p \<noteq> []" by simp
  then have "hd (dropWhile (\<lambda>c. c \<noteq> NL) p) = NL" using hd_dropWhile [OF ne] by simp
  with ne have "dropWhile (\<lambda>c. c \<noteq> NL) p = NL # tl (dropWhile (\<lambda>c. c \<noteq> NL) p)"
    by (cases "dropWhile (\<lambda>c. c \<noteq> NL) p") auto
  then show ?thesis by (metis takeWhile_dropWhile_id)
qed

lemma reader_lines_split:
  "reader_lines s now =
     ((fst (process_lines s now (fst (split_lines (partial s)))))\<lparr>partial := snd (split_lines (partial s))\<rparr>,
      snd (process_lines s now (fst (split_lines (partial s)))))"
proof (induction s now rule: reader_lines.induct)
  case (1 s now)
  show ?case
  proof (cases "NL \<in> set (partial s)")
    case False
    then show ?thesis
      by (subst reader_lines.simps) (simp add: split_lines_no_NL)
  next
    case True
    define line where "line = takeWhile (\<lambda>c. c \<noteq> NL) (partial s)"
    define rest where "rest = tl (dropWhile (\<lambda>c. c \<noteq> NL) (partial s))"
    define r1 where "r1 = process_line (s\<lparr>partial := rest\<rparr>) now (rstrip_chars line [CR]) False"
    define q1 where "q1 = process_line s now (rstrip_chars line [CR]) False"
    have p: "partial s = line @ NL # rest"
      unfolding line_def rest_def using True by (rule takeWhile_tl_dropWhile)
    have nl: "NL \<notin> set line"
      unfolding line_def by (auto dest: set_takeWhileD)
    have sp: "split_lines (partial s) = (line # fst (split_lines rest), snd (split_lines rest))"
      by (simp add: p split_lines_line [OF nl])
    have r1: "r1 = ((fst q1)\<lparr>partial := rest\<rparr>, snd q1)"
      by (simp add: r1_def q1_def process_line_partial_update)
    have step: "reader_lines s now = (fst (reader_lines (fst r1) now), snd r1 @ snd (reader_lines (fst r1) now))"
      using True by (subst reader_lines.simps) (simp add: Let_def r1_def line_def rest_def)
    have IH: "reader_lines (fst r1) now =
       ((fst (process_lines (fst r1) now (fst (split_lines (partial (fst r1))))))
           \<lparr>partial := snd (split_lines (partial (fst r1)))\<rparr>,
        snd (process_lines (fst r1) now (fst (split_lines (partial (fst r1))))))"
      using "1.IH" [OF True refl refl refl] unfolding r1_def line_def rest_def by simp
    have pr: "partial (fst r1) = rest" by (simp add: r1)
    show ?thesis
      unfolding step IH pr sp
      by (simp add: Let_def q1_def [symmetric] r1 process_lines_partial_update [where s = "fst q1"])
  qed
qed

lemma reader_chunk_split:
  "reader_chunk s now data =
     (let ls = fst (split_lines (partial s @ data));
          rest = snd (split_lines (partial s @ data));
          r1 = process_lines (s\<lparr>last_output_time := now\<rparr>) now ls;
          p = strip rest
      in if p \<noteq> [] \<and> prompt_like p then
           let r2 = process_line (fst r1) now p True
           in ((fst r2)\<lparr>partial := []\<rparr>, snd r1 @ snd r2)
         else ((fst r1)\<lparr>partial := rest\<rparr>, snd r1))"
proof -
  have pl: "process_lines (s\<lparr>partial := partial s @ data, last_output_time := now\<rparr>) now ls
      = ((fst (process_lines (s\<lparr>last_output_time := now\<rparr>) now ls))\<lparr>partial := partial s @ data\<rparr>,
         snd (process_lines (s\<lparr>last_output_time := now\<rparr>) now ls))" for ls
  proof -
    have eq: "s\<lparr>partial := partial s @ data, last_output_time := now\<rparr>
        = (s\<lparr>last_output_time := now\<rparr>)\<lparr>partial := partial s @ data\<rparr>"
      by simp
    show ?thesis unfolding eq by (rule process_lines_partial_update)
  qed
  show ?thesis
    by (simp add: reader_chunk_def reader_lines_split Let_def pl process_line_partial_update)
qed

text \<open>
  C1, as the code has it. A chunk is appended to the partial accumulator. The complete
  lines of the result, those a line terminator ends, are classified in the order they
  stand in, and what follows the last line terminator stays in the accumulator, with one
  exception: when that remainder, stripped, is not empty and looks like a prompt (it ends
  with a colon, holds a prompt keyword or is a token of one to eight digits), the stripped
  remainder is classified at once as a partial line and the accumulator is emptied. The
  complete lines and the remainder, put together again with the line terminators, are the
  text that was split. Fed to a new session, "a\nb\nc" gives the lines "a" and "b" and
  leaves "c" in the accumulator.
\<close>

theorem reader_chunk_lines_and_remainder:
  "reader_chunk s now data =
     (let ls = fst (split_lines (partial s @ data));
          rest = snd (split_lines (partial s @ data));
          r1 = process_lines (s\<lparr>last_output_time := now\<rparr>) now ls;
          p = strip rest
      in if p \<noteq> [] \<and> prompt_like p then
           let r2 = process_line (fst r1) now p True
           in ((fst r2)\<lparr>partial := []\<rparr>, snd r1 @ snd r2)
         else ((fst r1)\<lparr>partial := rest\<rparr>, snd r1)) \<and>
   concat (map (\<lambda>l. l @ [NL]) (fst (split_lines t))) @ snd (split_lines t) = t \<and>
   NL \<notin> set (snd (split_lines t)) \<and>
   (\<forall>l \<in> set (fst (split_lines t)). NL \<notin> set l)"
  using reader_chunk_split [of s now data] split_lines_joined [of t] split_lines_rest [of t]
    split_lines_each [of _ t]
  by blast

theorem reader_chunk_lines_and_remainder_witness:
  "reader_chunk (Session 1 2) 7 ''a\<newline>b\<newline>c''
     = ((Session 1 2)\<lparr>partial := ''c'', buffer_lines := [''a'', ''b''], last_output_time := 7\<rparr>, [])"
proof -
  have "reader_chunk (Session 1 2) 7 ''a\<newline>b\<newline>c'' =
     (let ls = fst (split_lines (partial (Session 1 2) @ ''a\<newline>b\<newline>c''));
          rest = snd (split_lines (partial (Session 1 2) @ ''a\<newline>b\<newline>c''));
          r1 = process_lines ((Session 1 2)\<lparr>last_output_time := 7\<rparr>) 7 ls;
          p = strip rest
      in if p \<noteq> [] \<and> prompt_like p then
           let r2 = process_line (fst r1) 7 p True
           in ((fst r2)\<lparr>partial := []\<rparr>, snd r1 @ snd r2)
         else ((fst r1)\<lparr>partial := rest\<rparr>, snd r1))"
    by (rule reader_chunk_lines_and_remainder
        [of "Session 1 2" 7 "''a\<newline>b\<newline>c''" "''a\<newline>b\<newline>c''", THEN conjunct1])
  also have "\<dots> = ((Session 1 2)\<lparr>partial := ''c'', buffer_lines := [''a'', ''b''],
      last_output_time := 7\<rparr>, [])"
    by code_simp
  finally show ?thesis .
qed

text \<open>
  C1 as stated fails when the remainder looks like a prompt. After the chunk
  "a\npress enter to continue" the remainder is neither in the accumulator nor among
  the buffered lines or menu entries: it was classified, a line terminator went to the
  child, and it was dropped.
\<close>

theorem reader_chunk_remainder_counterexample:
  "snd (split_lines ''a\<newline>press enter to continue'') = ''press enter to continue'' \<and>
   partial (fst (reader_chunk running_session 7 ''a\<newline>press enter to continue'')) = [] \<and>
   buffer_lines (fst (reader_chunk running_session 7 ''a\<newline>press enter to continue'')) = [''a''] \<and>
   menu_items (fst (reader_chunk running_session 7 ''a\<newline>press enter to continue'')) = [] \<and>
   snd (reader_chunk running_session 7 ''a\<newline>press enter to continue'') = [StdinWrite [NL]]"
  by code_simp

end
